theory Spec2Isabelle
  imports Main "HOL-Library.AList"
begin

section \<open>Strings\<close>

text \<open>
  Python strings are modelled as \<open>string\<close>. The string methods the two scripts call are
  written out: \<open>str.lower\<close> (on the ASCII letters), \<open>str.startswith\<close>, the \<open>in\<close>
  test on strings, \<open>str.lstrip(chars)\<close>, \<open>str.rfind\<close> and the last field of
  \<open>str.split('/')\<close>.
\<close>

definition lower_char :: "char \<Rightarrow> char" where
  "lower_char c =
     (case map_of (zip ''ABCDEFGHIJKLMNOPQRSTUVWXYZ'' ''abcdefghijklmnopqrstuvwxyz'') c of
        Some d \<Rightarrow> d
      | None \<Rightarrow> c)"

definition lower :: "string \<Rightarrow> string" where
  "lower s = map lower_char s"

definition startswith :: "string \<Rightarrow> string \<Rightarrow> bool" where
  "startswith s p = (take (length p) s = p)"

text \<open>\<open>contains sub s\<close> is Python's \<open>sub in s\<close>: \<open>sub\<close> occurs in \<open>s\<close> as a substring.\<close>

fun contains :: "string \<Rightarrow> string \<Rightarrow> bool" where
  "contains sub [] = (sub = [])"
| "contains sub (c # cs) = (startswith (c # cs) sub \<or> contains sub cs)"

text \<open>\<open>lstrip chars s\<close> is \<open>s.lstrip(chars)\<close>: it drops leading characters that occur in \<open>chars\<close>.\<close>

definition lstrip :: "string \<Rightarrow> string \<Rightarrow> string" where
  "lstrip chars s = dropWhile (\<lambda>c. c \<in> set chars) s"

text \<open>\<open>split_last sep s\<close> is \<open>s.split(sep)[-1]\<close> for a one-character separator.\<close>

definition split_last :: "char \<Rightarrow> string \<Rightarrow> string" where
  "split_last sep s = rev (takeWhile (\<lambda>c. c \<noteq> sep) (rev s))"

fun rfind :: "char \<Rightarrow> string \<Rightarrow> nat option" where
  "rfind c [] = None"
| "rfind c (x # xs) =
     (case rfind c xs of
        Some i \<Rightarrow> Some (Suc i)
      | None \<Rightarrow> if x = c then Some 0 else None)"

section \<open>Paths\<close>

text \<open>
  A \<open>pathlib.Path\<close> is the list of its components below the root of the file system; the
  root itself is the empty list. \<open>path_name\<close>, \<open>path_suffix\<close>, \<open>path_stem\<close>,
  \<open>with_suffix\<close> and \<open>relative_to\<close> follow the methods of \<open>PurePath\<close> that the scripts
  call; \<open>a @ b\<close> is \<open>a / b\<close> for a relative path \<open>b\<close> that is already a \<open>Path\<close>.
\<close>

type_synonym path = "string list"

datatype error =
    FileNotFoundError
  | FileExistsError
  | NotADirectoryError
  | IsADirectoryError
  | ValueError

definition path_name :: "path \<Rightarrow> string" where
  "path_name p = (if p = [] then [] else last p)"

text \<open>The suffix of a name starts at its last dot, unless that dot is the first or the last character.\<close>

definition name_suffix :: "string \<Rightarrow> string" where
  "name_suffix nm =
     (case rfind CHR ''.'' nm of
        None \<Rightarrow> []
      | Some i \<Rightarrow> if 0 < i \<and> Suc i < length nm then drop i nm else [])"

definition path_suffix :: "path \<Rightarrow> string" where
  "path_suffix p = name_suffix (path_name p)"

definition name_stem :: "string \<Rightarrow> string" where
  "name_stem nm = take (length nm - length (name_suffix nm)) nm"

definition path_stem :: "path \<Rightarrow> string" where
  "path_stem p = name_stem (path_name p)"

text \<open>
  \<open>with_suffix\<close> raises \<open>ValueError\<close> on a path with an empty name and on a suffix that
  is not empty and does not start with a dot, is a lone dot or holds a separator.
\<close>

definition with_suffix :: "path \<Rightarrow> string \<Rightarrow> error + path" where
  "with_suffix p suf =
     (if CHR ''/'' \<in> set suf \<or> (suf \<noteq> [] \<and> \<not> startswith suf ''.'') \<or> suf = ''.''
      then Inl ValueError
      else if path_name p = [] then Inl ValueError
      else Inr (butlast p @ [name_stem (path_name p) @ suf]))"

definition relative_to :: "path \<Rightarrow> path \<Rightarrow> error + path" where
  "relative_to p root =
     (if take (length root) p = root then Inr (drop (length root) p) else Inl ValueError)"

text \<open>
  \<open>joinpath p s\<close> is \<open>p / s\<close> for a string \<open>s\<close>, as the scripts write it when they build
  an output path from a name, in the POSIX flavour, where the separator is the slash. The
  string is split at the separator; empty components and
  single dots are dropped, double dots are kept as they are; a string that starts with
  the separator is absolute, and its components replace \<open>p\<close>.
\<close>

fun split_sep :: "char \<Rightarrow> string \<Rightarrow> string list" where
  "split_sep sep [] = [[]]"
| "split_sep sep (c # cs) =
     (if c = sep then [] # split_sep sep cs
      else (case split_sep sep cs of
              [] \<Rightarrow> [[c]]
            | x # xs \<Rightarrow> (c # x) # xs))"

definition parse_parts :: "string \<Rightarrow> path" where
  "parse_parts s = filter (\<lambda>c. c \<noteq> [] \<and> c \<noteq> ''.'') (split_sep CHR ''/'' s)"

definition joinpath :: "path \<Rightarrow> string \<Rightarrow> path" where
  "joinpath p s = (if startswith s ''/'' then parse_parts s else p @ parse_parts s)"

section \<open>The file system\<close>

text \<open>
  The file system is the list of its entries in traversal order, each a directory or a
  file with its content; the root \<open>[]\<close> is always a directory. File contents are byte
  strings.
\<close>

type_synonym bytes = string

datatype node = Dir | File bytes

type_synonym filesystem = "(path \<times> node) list"

definition is_dir :: "filesystem \<Rightarrow> path \<Rightarrow> bool" where
  "is_dir fs p = (p = [] \<or> map_of fs p = Some Dir)"

definition exists :: "filesystem \<Rightarrow> path \<Rightarrow> bool" where
  "exists fs p = (p = [] \<or> map_of fs p \<noteq> None)"

definition is_under :: "path \<Rightarrow> path \<Rightarrow> bool" where
  "is_under root p = (length root < length p \<and> take (length root) p = root)"

text \<open>
  \<open>Path.rglob\<close> belongs to the standard library. It yields the entries below \<open>root\<close>
  (files and directories alike) whose name matches the pattern, and it yields nothing,
  without raising, when \<open>root\<close> is not an existing directory.
\<close>

definition rglob :: "filesystem \<Rightarrow> path \<Rightarrow> (string \<Rightarrow> bool) \<Rightarrow> path list" where
  "rglob fs root matches =
     (if \<not> is_dir fs root then []
      else filter (\<lambda>p. is_under root p \<and> matches (path_name p)) (map fst fs))"

text \<open>\<open>os.mkdir\<close>: the path must be new and its parent an existing directory.\<close>

definition os_mkdir :: "filesystem \<Rightarrow> path \<Rightarrow> error + filesystem" where
  "os_mkdir fs p =
     (if exists fs p then Inl FileExistsError
      else if \<not> exists fs (butlast p) then Inl FileNotFoundError
      else if \<not> is_dir fs (butlast p) then Inl NotADirectoryError
      else Inr (fs @ [(p, Dir)]))"

text \<open>\<open>Path.mkdir(exist_ok=True)\<close>: a missing parent is an error, an existing directory is not.\<close>

definition mkdir :: "filesystem \<Rightarrow> path \<Rightarrow> error + filesystem" where
  "mkdir fs p =
     (case os_mkdir fs p of
        Inr fs' \<Rightarrow> Inr fs'
      | Inl FileNotFoundError \<Rightarrow> Inl FileNotFoundError
      | Inl e \<Rightarrow> if is_dir fs p then Inr fs else Inl e)"

text \<open>
  \<open>Path.mkdir(parents=True, exist_ok=True)\<close>, on the reversed path: when the parent is
  missing it is created first, with the same flags, and the directory is made again.
\<close>

fun mkdir_parents_rev :: "filesystem \<Rightarrow> string list \<Rightarrow> error + filesystem" where
  "mkdir_parents_rev fs [] = mkdir fs []"
| "mkdir_parents_rev fs (c # rp) =
     (case os_mkdir fs (rev (c # rp)) of
        Inr fs' \<Rightarrow> Inr fs'
      | Inl FileNotFoundError \<Rightarrow>
          (case mkdir_parents_rev fs rp of
             Inl e \<Rightarrow> Inl e
           | Inr fs' \<Rightarrow> mkdir fs' (rev (c # rp)))
      | Inl e \<Rightarrow> if is_dir fs (rev (c # rp)) then Inr fs else Inl e)"

definition mkdir_parents :: "filesystem \<Rightarrow> path \<Rightarrow> error + filesystem" where
  "mkdir_parents fs p = mkdir_parents_rev fs (rev p)"

text \<open>
  Opening a file for writing truncates or creates it: the path must not be a directory
  and its parent must be an existing directory. \<open>write_file\<close> leaves the given content.
\<close>

definition write_file :: "filesystem \<Rightarrow> path \<Rightarrow> bytes \<Rightarrow> error + filesystem" where
  "write_file fs p data =
     (if is_dir fs p then Inl IsADirectoryError
      else if \<not> exists fs (butlast p) then Inl FileNotFoundError
      else if \<not> is_dir fs (butlast p) then Inl NotADirectoryError
      else Inr (AList.update p (File data) fs))"

definition read_file :: "filesystem \<Rightarrow> path \<Rightarrow> bytes option" where
  "read_file fs p = (case map_of fs p of Some (File data) \<Rightarrow> Some data | _ \<Rightarrow> None)"

section \<open>Messages and state\<close>

text \<open>
  Both scripts change the file system and report on the console or in the log. The state
  threaded through the model holds the file system and the messages in the order they
  were issued; the text of a caught exception is left out of a message.
\<close>

datatype message =
    Processing path
  | Saved path
  | ErrorProcessing path
  | FailedToSaveImage string
  | ErrorProcessingItem

record state =
  fsys :: filesystem
  logged :: "message list"

definition say :: "message \<Rightarrow> state \<Rightarrow> state" where
  "say m s = s\<lparr>logged := logged s @ [m]\<rparr>"

section \<open>img2text.py\<close>

text \<open>
  The OCR engine, the clock and \<open>os.getlogin\<close> are outside the repository and are
  parameters: \<open>readtext\<close> maps the bytes of an image file to the recognised lines, or to
  \<open>None\<close> when the engine raises; \<open>getlogin\<close> is \<open>None\<close> when no login name is
  available; \<open>utcnow p\<close> is the formatted time at which the artifact for \<open>p\<close> is written.
\<close>

record ocr_env =
  readtext :: "bytes \<Rightarrow> string list option"
  getlogin :: "string option"
  utcnow :: "path \<Rightarrow> string"

text \<open>Lines 22 and 23 of \<open>create_output_path\<close>: the mirrored path, without the file system.\<close>

definition mirrored_path :: "path \<Rightarrow> path \<Rightarrow> path \<Rightarrow> error + path" where
  "mirrored_path input_path input_root output_root =
     (case relative_to input_path input_root of
        Inl e \<Rightarrow> Inl e
      | Inr relative_path \<Rightarrow>
          (case with_suffix relative_path ''.txt'' of
             Inl e \<Rightarrow> Inl e
           | Inr rel_txt \<Rightarrow> Inr (output_root @ rel_txt)))"

definition create_output_path ::
  "path \<Rightarrow> path \<Rightarrow> path \<Rightarrow> filesystem \<Rightarrow> error + (path \<times> filesystem)" where
  "create_output_path input_path input_root output_root fs =
     (case mirrored_path input_path input_root output_root of
        Inl e \<Rightarrow> Inl e
      | Inr output_path \<Rightarrow>
          (case mkdir_parents fs (butlast output_path) of
             Inl e \<Rightarrow> Inl e
           | Inr fs' \<Rightarrow> Inr (output_path, fs')))"

text \<open>\<open>reader.readtext(str(image_path), detail=0)\<close> reads the image file; it raises on a path that is no file.\<close>

definition recognise :: "ocr_env \<Rightarrow> filesystem \<Rightarrow> path \<Rightarrow> string list option" where
  "recognise env fs image_path =
     (case read_file fs image_path of
        None \<Rightarrow> None
      | Some data \<Rightarrow> readtext env data)"

definition header_prefix :: "ocr_env \<Rightarrow> path \<Rightarrow> string" where
  "header_prefix env image_path =
     ''Source Image: '' @ path_name image_path @ ''\<newline>'' @
     ''Processing Date (UTC): '' @ utcnow env image_path @ ''\<newline>''"

definition artifact :: "ocr_env \<Rightarrow> path \<Rightarrow> string \<Rightarrow> string list \<Rightarrow> string" where
  "artifact env image_path user result =
     header_prefix env image_path @
     ''Processed by: '' @ user @ ''\<newline>'' @
     replicate 50 CHR ''-'' @ ''\<newline>\<newline>'' @
     concat (map (\<lambda>text. text @ ''\<newline>'') result)"

text \<open>
  \<open>process_image\<close>: the engine runs before the output file is opened. Opening the file
  truncates it; when \<open>os.getlogin\<close> raises, the two lines written so far stay in the
  file. Every exception ends in the handler, which logs it and returns \<open>False\<close>.
\<close>

definition process_image :: "ocr_env \<Rightarrow> path \<Rightarrow> path \<Rightarrow> state \<Rightarrow> bool \<times> state" where
  "process_image env image_path output_path s =
     (let s1 = say (Processing image_path) s in
      case recognise env (fsys s1) image_path of
        None \<Rightarrow> (False, say (ErrorProcessing image_path) s1)
      | Some result \<Rightarrow>
          (case write_file (fsys s1) output_path [] of
             Inl e \<Rightarrow> (False, say (ErrorProcessing image_path) s1)
           | Inr fs_open \<Rightarrow>
               (case getlogin env of
                  None \<Rightarrow>
                    (False,
                     say (ErrorProcessing image_path)
                       (s1\<lparr>fsys := AList.update output_path
                                      (File (header_prefix env image_path)) fs_open\<rparr>))
                | Some user \<Rightarrow>
                    (True,
                     say (Saved output_path)
                       (s1\<lparr>fsys := AList.update output_path
                                      (File (artifact env image_path user result)) fs_open\<rparr>)))))"

definition image_extensions :: "string list" where
  "image_extensions = [''.png'', ''.jpg'', ''.jpeg'', ''.tiff'', ''.bmp'']"

definition find_images :: "filesystem \<Rightarrow> path \<Rightarrow> path list" where
  "find_images fs input_root =
     filter (\<lambda>img. lower (path_suffix img) \<in> set image_extensions)
       (rglob fs input_root (\<lambda>nm. True))"

text \<open>
  The loop of \<open>main\<close> with its two counters. \<open>create_output_path\<close> is called outside
  any handler, so its error ends the loop and the run.
\<close>

fun ocr_loop ::
  "ocr_env \<Rightarrow> path \<Rightarrow> path \<Rightarrow> path list \<Rightarrow> state \<times> nat \<times> nat \<Rightarrow> error + (state \<times> nat \<times> nat)" where
  "ocr_loop env input_root output_root [] acc = Inr acc"
| "ocr_loop env input_root output_root (image_path # rest) (s, successful, failed) =
     (case create_output_path image_path input_root output_root (fsys s) of
        Inl e \<Rightarrow> Inl e
      | Inr (output_path, fs') \<Rightarrow>
          (case process_image env image_path output_path (s\<lparr>fsys := fs'\<rparr>) of
             (True, s') \<Rightarrow> ocr_loop env input_root output_root rest (s', successful + 1, failed)
           | (False, s') \<Rightarrow> ocr_loop env input_root output_root rest (s', successful, failed + 1)))"

text \<open>
  \<open>main\<close> of img2text.py, from the creation of the output root on; setting up the log
  file and loading the engine come before and touch neither the scan nor the counters.
\<close>

definition ocr_main :: "ocr_env \<Rightarrow> path \<Rightarrow> path \<Rightarrow> state \<Rightarrow> error + (state \<times> nat \<times> nat)" where
  "ocr_main env input_root output_root s =
     (case mkdir_parents (fsys s) output_root of
        Inl e \<Rightarrow> Inl e
      | Inr fs' \<Rightarrow>
          ocr_loop env input_root output_root (find_images fs' input_root)
            (s\<lparr>fsys := fs'\<rparr>, 0, 0))"

section \<open>epub2img.py\<close>

text \<open>
  What the script reads of an item of an opened book: \<open>item.id\<close>, \<open>item.media_type\<close>,
  \<open>item.file_name\<close>, \<open>item.content\<close> (bytes, or a value of another type) and the type
  code that \<open>get_type()\<close> reports, which \<open>get_items_of_type\<close> compares.
\<close>

datatype content = Bytes bytes | NotBytes

datatype item_type =
    ITEM_UNKNOWN | ITEM_IMAGE | ITEM_STYLE | ITEM_SCRIPT | ITEM_NAVIGATION | ITEM_VECTOR
  | ITEM_FONT | ITEM_VIDEO | ITEM_AUDIO | ITEM_DOCUMENT | ITEM_COVER | ITEM_SMIL

record item =
  item_id :: string
  media_type :: string
  file_name :: string
  item_content :: content
  get_type :: item_type

record book =
  get_items :: "item list"

definition get_items_of_type :: "book \<Rightarrow> item_type \<Rightarrow> item list" where
  "get_items_of_type b t = filter (\<lambda>i. get_type i = t) (get_items b)"

text \<open>
  The libraries are parameters. \<open>read_epub_bytes\<close> parses the bytes of a container
  (\<open>None\<close>: \<open>epub.read_epub\<close> raises). \<open>find_all_img\<close> parses a page and gives, for each
  \<open>img\<close> element in document order, its \<open>src\<close> attribute if it has one (\<open>None\<close> for the
  whole result: the parser raises). \<open>codec data p\<close> is what \<open>Image.open\<close> of the payload
  followed by \<open>img.save(p)\<close> leaves in the file \<open>p\<close> (\<open>None\<close>: one of the two raises and
  no file is left).
\<close>

record epub_env =
  read_epub_bytes :: "bytes \<Rightarrow> book option"
  find_all_img :: "bytes \<Rightarrow> string option list option"
  codec :: "bytes \<Rightarrow> path \<Rightarrow> bytes option"

definition endswith :: "string \<Rightarrow> string \<Rightarrow> bool" where
  "endswith s suf = startswith (rev s) (rev suf)"

text \<open>\<open>find_epubs\<close>; the pattern \<open>*.epub\<close> is matched on the name, case-sensitively.\<close>

definition find_epubs :: "filesystem \<Rightarrow> path \<Rightarrow> path list" where
  "find_epubs fs input_folder = rglob fs input_folder (\<lambda>nm. endswith nm ''.epub'')"

text \<open>
  The inner \<open>try\<close> of both branches (lines 49 to 53 and 87 to 91): decode, save, and on
  any exception print the failure for this item and go on.
\<close>

definition save_image :: "epub_env \<Rightarrow> content \<Rightarrow> path \<Rightarrow> string \<Rightarrow> state \<Rightarrow> state" where
  "save_image env img_data output_path ident s =
     (case img_data of
        NotBytes \<Rightarrow> say (FailedToSaveImage ident) s
      | Bytes b \<Rightarrow>
          (case codec env b output_path of
             None \<Rightarrow> say (FailedToSaveImage ident) s
           | Some written \<Rightarrow>
               (case write_file (fsys s) output_path written of
                  Inl e \<Rightarrow> say (FailedToSaveImage ident) s
                | Inr fs' \<Rightarrow> s\<lparr>fsys := fs'\<rparr>)))"

text \<open>Lines 43 and 44, and 82 and 83: the extension kept for the output file.\<close>

definition valid_extension :: "string \<Rightarrow> string" where
  "valid_extension img_extension =
     (if lower img_extension \<notin> set [''jpeg'', ''jpg'', ''png'', ''gif''] then ''jpg''
      else img_extension)"

definition output_file :: "path \<Rightarrow> string \<Rightarrow> string \<Rightarrow> path" where
  "output_file output_folder ident img_extension =
     joinpath output_folder (ident @ ''.'' @ img_extension)"

text \<open>Lines 35 to 53: an item whose media type starts with \<open>image/\<close>.\<close>

definition extract_direct :: "epub_env \<Rightarrow> item \<Rightarrow> path \<Rightarrow> state \<Rightarrow> state" where
  "extract_direct env it output_folder s =
     (let img_extension = split_last CHR ''/'' (media_type it) in
      if lower img_extension = ''svg'' then s
      else save_image env (item_content it)
             (output_file output_folder (item_id it) (valid_extension img_extension))
             (item_id it) s)"

text \<open>Lines 72 to 91: the loop over the image items of the book for one cleaned \<open>src\<close>.\<close>

fun resolve_src :: "epub_env \<Rightarrow> path \<Rightarrow> string \<Rightarrow> item list \<Rightarrow> state \<Rightarrow> state" where
  "resolve_src env output_folder src [] s = s"
| "resolve_src env output_folder src (image_item # rest) s =
     (if contains src (file_name image_item) then
        if media_type image_item = ''image/svg+xml'' then resolve_src env output_folder src rest s
        else resolve_src env output_folder src rest
               (save_image env (item_content image_item)
                  (output_file output_folder (item_id image_item)
                     (valid_extension (split_last CHR ''/'' (media_type image_item))))
                  (item_id image_item) s)
      else resolve_src env output_folder src rest s)"

text \<open>Lines 68 and 69: two left strips, both of the characters dot and slash.\<close>

definition clean_src :: "string \<Rightarrow> string" where
  "clean_src src = lstrip ''../'' (lstrip ''./'' src)"

text \<open>Lines 60 to 91: the loop over the \<open>img\<close> elements of a page.\<close>

fun extract_from_images :: "epub_env \<Rightarrow> book \<Rightarrow> path \<Rightarrow> string option list \<Rightarrow> state \<Rightarrow> state" where
  "extract_from_images env epub_book output_folder [] s = s"
| "extract_from_images env epub_book output_folder (None # images) s =
     extract_from_images env epub_book output_folder images s"
| "extract_from_images env epub_book output_folder (Some src # images) s =
     (if src = [] then extract_from_images env epub_book output_folder images s
      else if startswith src ''http'' then extract_from_images env epub_book output_folder images s
      else extract_from_images env epub_book output_folder images
             (resolve_src env output_folder (clean_src src)
                (get_items_of_type epub_book ITEM_IMAGE) s))"

definition extract_images_from_item :: "epub_env \<Rightarrow> item \<Rightarrow> book \<Rightarrow> path \<Rightarrow> state \<Rightarrow> state" where
  "extract_images_from_item env it epub_book output_folder s =
     (case item_content it of
        NotBytes \<Rightarrow> s
      | Bytes b \<Rightarrow>
          if startswith (media_type it) ''image/'' then extract_direct env it output_folder s
          else if media_type it = ''application/xhtml+xml'' then
            (case find_all_img env b of
               None \<Rightarrow> say ErrorProcessingItem s
             | Some images \<Rightarrow> extract_from_images env epub_book output_folder images s)
          else s)"

definition read_epub :: "epub_env \<Rightarrow> filesystem \<Rightarrow> path \<Rightarrow> book option" where
  "read_epub env fs epub_path =
     (case read_file fs epub_path of
        None \<Rightarrow> None
      | Some data \<Rightarrow> read_epub_bytes env data)"

text \<open>
  \<open>process_epub\<close>: the subfolder is made (without \<open>parents\<close>), the container is read,
  every item is handed to the extractor. An exception of the first two steps ends in the
  handler, which returns \<open>False\<close>.
\<close>

definition process_epub :: "epub_env \<Rightarrow> path \<Rightarrow> path \<Rightarrow> state \<Rightarrow> bool \<times> state" where
  "process_epub env output_folder epub_path s =
     (let epub_output_folder = joinpath output_folder (path_stem epub_path) in
      case mkdir (fsys s) epub_output_folder of
        Inl e \<Rightarrow> (False, say (ErrorProcessing epub_path) s)
      | Inr fs' \<Rightarrow>
          (case read_epub env fs' epub_path of
             None \<Rightarrow> (False, say (ErrorProcessing epub_path) (s\<lparr>fsys := fs'\<rparr>))
           | Some epub_book \<Rightarrow>
               (True,
                foldl (\<lambda>st it. extract_images_from_item env it epub_book epub_output_folder st)
                  (s\<lparr>fsys := fs'\<rparr>) (get_items epub_book))))"

fun epub_loop :: "epub_env \<Rightarrow> path \<Rightarrow> path list \<Rightarrow> state \<times> nat \<times> nat \<Rightarrow> state \<times> nat \<times> nat" where
  "epub_loop env output_folder [] acc = acc"
| "epub_loop env output_folder (epub_path # rest) (s, successful, failed) =
     (case process_epub env output_folder epub_path s of
        (True, s') \<Rightarrow> epub_loop env output_folder rest (s', successful + 1, failed)
      | (False, s') \<Rightarrow> epub_loop env output_folder rest (s', successful, failed + 1))"

definition process_all_epubs :: "epub_env \<Rightarrow> path \<Rightarrow> path \<Rightarrow> state \<Rightarrow> state \<times> nat \<times> nat" where
  "process_all_epubs env input_folder output_folder s =
     epub_loop env output_folder (find_epubs (fsys s) input_folder) (s, 0, 0)"

text \<open>
  \<open>main\<close> of epub2img.py: the constructor makes the output folder, with its parents, and
  \<open>process_all_epubs\<close> runs. Nothing here handles an exception.
\<close>

definition epub_main :: "epub_env \<Rightarrow> path \<Rightarrow> path \<Rightarrow> state \<Rightarrow> error + (state \<times> nat \<times> nat)" where
  "epub_main env input_folder output_folder s =
     (case mkdir_parents (fsys s) output_folder of
        Inl e \<Rightarrow> Inl e
      | Inr fs' \<Rightarrow> Inr (process_all_epubs env input_folder output_folder (s\<lparr>fsys := fs'\<rparr>)))"

section \<open>Definitions for stating the properties\<close>



definition unmirror :: "path \<Rightarrow> string \<Rightarrow> path \<Rightarrow> path option" where
  "unmirror output_root ext output_path =
     (case relative_to output_path output_root of
        Inl e \<Rightarrow> None
      | Inr r \<Rightarrow>
          if r \<noteq> [] \<and> endswith (last r) ''.txt''
          then Some (butlast r @ [take (length (last r) - 4) (last r) @ ext])
          else None)"

text \<open>
  \<open>is_file\<close> is \<open>Path.is_file\<close>. \<open>resolved_path\<close> is the output path that both branches of
  the extractor build for an item (lines 36 to 46 and 79 to 85).
\<close>

definition is_file :: "filesystem \<Rightarrow> path \<Rightarrow> bool" where
  "is_file fs p = (read_file fs p \<noteq> None)"

definition resolved_path :: "path \<Rightarrow> item \<Rightarrow> path" where
  "resolved_path output_folder it =
     output_file output_folder (item_id it)
       (valid_extension (split_last CHR ''/'' (media_type it)))"

section \<open>Concrete inputs\<close>

text \<open>A small image tree and an engine that reads one of its two files.\<close>

definition demo_ocr_env :: ocr_env where
  "demo_ocr_env =
     \<lparr>readtext = (\<lambda>data. if data = ''scan'' then Some [''Hello'', ''World''] else None),
      getlogin = Some ''operator'',
      utcnow = (\<lambda>p. ''2024-01-01 00:00:00'')\<rparr>"


definition demo_images :: filesystem where
  "demo_images =
     [([''imgs''], Dir),
      ([''imgs'', ''page1.jpg''], File ''scan''),
      ([''imgs'', ''a.png''], File ''noise''),
      ([''txt''], Dir)]"

definition demo_state :: state where
  "demo_state = \<lparr>fsys = demo_images, logged = []\<rparr>"

text \<open>
  A book with two images and a page that refers to one of them, a second page whose
  \<open>src\<close> is a bare file name, two items with unusual media types, and a library
  with one readable and one unreadable container. The codec of the example returns the
  payload unchanged unless the payload is \<open>broken\<close>.
\<close>

definition pic_item :: item where
  "pic_item =
     \<lparr>item_id = ''pic'', media_type = ''image/jpeg'', file_name = ''images/pic.jpg'',
      item_content = Bytes ''JFIF'', get_type = ITEM_IMAGE\<rparr>"

definition thumb_item :: item where
  "thumb_item =
     \<lparr>item_id = ''thumb'', media_type = ''image/jpeg'', file_name = ''thumbs/pic.jpg'',
      item_content = Bytes ''JFIF-small'', get_type = ITEM_IMAGE\<rparr>"

definition page_item :: item where
  "page_item =
     \<lparr>item_id = ''ch1'', media_type = ''application/xhtml+xml'', file_name = ''text/ch1.xhtml'',
      item_content = Bytes ''<img src=../images/pic.jpg>'', get_type = ITEM_DOCUMENT\<rparr>"

definition demo_book :: book where
  "demo_book = \<lparr>get_items = [thumb_item, pic_item, page_item]\<rparr>"

definition demo_epub_env :: epub_env where
  "demo_epub_env =
     \<lparr>read_epub_bytes = (\<lambda>data. if data = ''epub'' then Some demo_book else None),
      find_all_img =
        (\<lambda>b. if b = ''<img src=../images/pic.jpg>'' then Some [Some ''../images/pic.jpg'']
              else if b = ''<img src=pic.jpg>'' then Some [Some ''pic.jpg'']
              else Some []),
      codec = (\<lambda>b p. if b = ''broken'' then None else Some b)\<rparr>"

definition demo_library :: filesystem where
  "demo_library =
     [([''books''], Dir),
      ([''books'', ''jung.epub''], File ''epub''),
      ([''books'', ''torn.epub''], File ''junk''),
      ([''book_images''], Dir)]"

definition demo_library_state :: state where
  "demo_library_state = \<lparr>fsys = demo_library, logged = []\<rparr>"

definition upper_item :: item where
  "upper_item =
     \<lparr>item_id = ''cover'', media_type = ''image/PNG'', file_name = ''images/cover.png'',
      item_content = Bytes ''PNGDATA'', get_type = ITEM_IMAGE\<rparr>"

definition svg_item :: item where
  "svg_item =
     \<lparr>item_id = ''logo'', media_type = ''image/svg+xml'', file_name = ''images/logo.svg'',
      item_content = Bytes ''PNGDATA'', get_type = ITEM_IMAGE\<rparr>"

definition short_src_page :: item where
  "short_src_page =
     \<lparr>item_id = ''ch2'', media_type = ''application/xhtml+xml'', file_name = ''text/ch2.xhtml'',
      item_content = Bytes ''<img src=pic.jpg>'', get_type = ITEM_DOCUMENT\<rparr>"

definition empty_folder_state :: state where
  "empty_folder_state = \<lparr>fsys = [([''out''], Dir)], logged = []\<rparr>"

section \<open>Basic facts\<close>

lemma fsys_say: "fsys (say m s) = fsys s"
  by (simp add: say_def)

lemma stem_suffix: "name_stem nm @ name_suffix nm = nm"
  by (auto simp: name_stem_def name_suffix_def split: option.splits)

lemma read_file_update: "read_file (AList.update p (File d) fs) p = Some d"
  by (simp add: read_file_def update_conv')

lemma split_sep_without_sep: "sep \<notin> set s \<Longrightarrow> split_sep sep s = [s]"
  by (induction s) auto

lemma joinpath_single:
  assumes "CHR ''/'' \<notin> set nm" "nm \<noteq> []" "nm \<noteq> ''.''"
  shows "joinpath p nm = p @ [nm]"
proof -
  from assms(1,2) have "\<not> startswith nm ''/''"
    by (cases nm) (auto simp: startswith_def)
  with assms show ?thesis
    by (simp add: joinpath_def parse_parts_def split_sep_without_sep)
qed

section \<open>The text artifact\<close>











section \<open>The mirrored output path\<close>

lemma mirrored:
  assumes "is_under input_root input_path" and "path_name input_path \<noteq> []"
  shows "mirrored_path input_path input_root output_root =
           Inr (output_root @ butlast (drop (length input_root) input_path) @
                [name_stem (path_name input_path) @ ''.txt''])"
  using assms
  by (auto simp: mirrored_path_def relative_to_def with_suffix_def is_under_def path_name_def
        startswith_def)

text \<open>
  C5. For an image path below the scan root, the mirrored output path exists, and
  stripping the output root and the text extension from it and attaching the image's own
  extension gives back the image's path relative to the scan root. The path that
  \<open>create_output_path\<close> returns, whenever it returns, is this mirrored path.
\<close>

theorem mirrored_path_round_trip:
  assumes "is_under input_root input_path" and "path_name input_path \<noteq> []"
  shows "\<exists>out. mirrored_path input_path input_root output_root = Inr out \<and>
           relative_to input_path input_root = Inr (drop (length input_root) input_path) \<and>
           unmirror output_root (path_suffix input_path) out =
             Some (drop (length input_root) input_path) \<and>
           (\<forall>fs out' fs'.
              create_output_path input_path input_root output_root fs = Inr (out', fs') \<longrightarrow>
              out' = out)"
proof -
  let ?rel = "drop (length input_root) input_path"
  let ?nm = "path_name input_path"
  let ?out = "output_root @ butlast ?rel @ [name_stem ?nm @ ''.txt'']"
  have m: "mirrored_path input_path input_root output_root = Inr ?out"
    by (rule mirrored [OF assms])
  have rel: "?rel \<noteq> []" "last ?rel = ?nm"
    using assms by (auto simp: is_under_def path_name_def)
  have r: "relative_to input_path input_root = Inr ?rel"
    using assms by (simp add: relative_to_def is_under_def)
  have ro: "relative_to ?out output_root = Inr (butlast ?rel @ [name_stem ?nm @ ''.txt''])"
    by (simp add: relative_to_def)
  have e: "endswith (name_stem ?nm @ ''.txt'') ''.txt''"
    by (simp add: endswith_def startswith_def)
  have "butlast ?rel @ [last ?rel] = ?rel"
    using rel(1) by (rule append_butlast_last_id)
  then have "butlast ?rel @ [name_stem ?nm @ name_suffix ?nm] = ?rel"
    by (simp only: stem_suffix rel(2))
  then have u: "unmirror output_root (path_suffix input_path) ?out = Some ?rel"
    by (simp add: unmirror_def ro e path_suffix_def)
  have c: "\<forall>fs out' fs'.
             create_output_path input_path input_root output_root fs = Inr (out', fs') \<longrightarrow>
             out' = ?out"
    by (auto simp: create_output_path_def m split: sum.splits)
  from m r u c show ?thesis by blast
qed

theorem mirrored_path_round_trip_witness:
  "is_under [''imgs''] [''imgs'', ''b'', ''a.png''] \<and>
   path_name [''imgs'', ''b'', ''a.png''] \<noteq> [] \<and>
   mirrored_path [''imgs'', ''b'', ''a.png''] [''imgs''] [''txt''] = Inr [''txt'', ''b'', ''a.txt''] \<and>
   unmirror [''txt''] ''.png'' [''txt'', ''b'', ''a.txt''] = Some [''b'', ''a.png'']"
proof -
  have h1: "is_under [''imgs''] [''imgs'', ''b'', ''a.png'']" by (simp add: is_under_def)
  have h2: "path_name [''imgs'', ''b'', ''a.png''] \<noteq> []" by (simp add: path_name_def)
  have sfx: "path_suffix [''imgs'', ''b'', ''a.png''] = ''.png''"
    by (simp add: path_suffix_def path_name_def name_suffix_def)
  have m: "mirrored_path [''imgs'', ''b'', ''a.png''] [''imgs''] [''txt''] =
             Inr [''txt'', ''b'', ''a.txt'']"
    by (simp add: mirrored_path_def relative_to_def with_suffix_def startswith_def path_name_def
          name_stem_def name_suffix_def)
  from mirrored_path_round_trip [OF h1 h2, of "[''txt'']"] m sfx
  have "unmirror [''txt''] ''.png'' [''txt'', ''b'', ''a.txt''] = Some [''b'', ''a.png'']"
    by auto
  with h1 h2 m show ?thesis by simp
qed

section \<open>A failed recognition\<close>

text \<open>
  Making directories leaves every file as it was.
\<close>

lemma os_mkdir_read_file:
  assumes "os_mkdir fs p = Inr fs'"
  shows "read_file fs' q = read_file fs q"
proof -
  from assms have fs': "fs' = fs @ [(p, Dir)]" and n: "map_of fs p = None"
    by (auto simp: os_mkdir_def exists_def split: if_splits)
  show ?thesis
    using n by (cases "map_of fs q") (auto simp: fs' read_file_def map_add_def)
qed

lemma mkdir_read_file:
  assumes "mkdir fs p = Inr fs'"
  shows "read_file fs' q = read_file fs q"
proof (cases "os_mkdir fs p")
  case (Inr a)
  with assms have "fs' = a" by (simp add: mkdir_def)
  with Inr show ?thesis by (simp add: os_mkdir_read_file)
next
  case (Inl e)
  with assms have "fs' = fs" by (cases e) (auto simp: mkdir_def split: if_splits)
  then show ?thesis by simp
qed

lemma mkdir_parents_rev_read_file:
  "mkdir_parents_rev fs rp = Inr fs' \<Longrightarrow> read_file fs' q = read_file fs q"
proof (induction rp arbitrary: fs')
  case Nil
  then show ?case by (simp add: mkdir_read_file)
next
  case (Cons c rp)
  show ?case
  proof (cases "os_mkdir fs (rev (c # rp))")
    case (Inr a)
    with Cons.prems have "fs' = a" by simp
    with Inr show ?thesis by (simp add: os_mkdir_read_file)
  next
    case (Inl e)
    show ?thesis
    proof (cases "e = FileNotFoundError")
      case True
      with Inl Cons.prems obtain fs1 where
        a: "mkdir_parents_rev fs rp = Inr fs1" and b: "mkdir fs1 (rev (c # rp)) = Inr fs'"
        by (auto split: sum.splits)
      from Cons.IH [OF a] mkdir_read_file [OF b] show ?thesis by simp
    next
      case False
      with Inl Cons.prems have "fs' = fs" by (cases e) (auto split: if_splits)
      then show ?thesis by simp
    qed
  qed
qed

lemma create_output_path_read_file:
  assumes "create_output_path image_path input_root output_root fs = Inr (output_path, fs')"
  shows "read_file fs' q = read_file fs q"
  using assms
  by (auto simp: create_output_path_def mkdir_parents_def split: sum.splits
        dest: mkdir_parents_rev_read_file)

lemma process_image_engine_raises:
  assumes "recognise env (fsys s) image_path = None"
  shows "process_image env image_path output_path s =
           (False, say (ErrorProcessing image_path) (say (Processing image_path) s))"
  using assms by (simp add: process_image_def Let_def fsys_say)

lemma demo_create_output_path:
  "create_output_path [''imgs'', ''a.png''] [''imgs''] [''txt''] (fsys demo_state) =
     Inr ([''txt'', ''a.txt''], demo_images)"
  by (simp add: create_output_path_def mirrored_path_def relative_to_def with_suffix_def
        startswith_def path_name_def name_stem_def name_suffix_def mkdir_parents_def
        os_mkdir_def exists_def is_dir_def demo_state_def demo_images_def)

lemma demo_engine_raises:
  "recognise demo_ocr_env (fsys demo_state) [''imgs'', ''a.png''] = None"
  by (simp add: recognise_def read_file_def demo_ocr_env_def demo_images_def demo_state_def)

text \<open>
  C4. When the engine raises on an image, \<open>process_image\<close> returns \<open>False\<close> and leaves
  the file system as \<open>create_output_path\<close> left it: no file is created or changed, at the
  mirrored path or elsewhere. The loop goes on with the remaining images, the failed
  counter one higher and the succeeded counter unchanged.
\<close>

theorem recognition_failure_is_counted:
  assumes "create_output_path image_path input_root output_root (fsys s) = Inr (output_path, fs')"
      and "recognise env (fsys s) image_path = None"
  shows "\<exists>s'. process_image env image_path output_path (s\<lparr>fsys := fs'\<rparr>) = (False, s') \<and>
              fsys s' = fs' \<and>
              (\<forall>q. read_file (fsys s') q = read_file (fsys s) q) \<and>
              ocr_loop env input_root output_root (image_path # rest) (s, successful, failed) =
                ocr_loop env input_root output_root rest (s', successful, failed + 1)"
proof -
  let ?s1 = "s\<lparr>fsys := fs'\<rparr>"
  let ?s' = "say (ErrorProcessing image_path) (say (Processing image_path) ?s1)"
  have rf: "\<And>q. read_file fs' q = read_file (fsys s) q"
    by (rule create_output_path_read_file [OF assms(1)])
  have "recognise env (fsys ?s1) image_path = None"
    using assms(2) by (simp add: recognise_def rf)
  then have p: "process_image env image_path output_path ?s1 = (False, ?s')"
    by (rule process_image_engine_raises)
  have f: "fsys ?s' = fs'" by (simp add: fsys_say)
  have l: "ocr_loop env input_root output_root (image_path # rest) (s, successful, failed) =
                ocr_loop env input_root output_root rest (?s', successful, failed + 1)"
    by (simp add: assms(1) p)
  from p f rf l show ?thesis by auto
qed

theorem recognition_failure_is_counted_witness:
  "create_output_path [''imgs'', ''a.png''] [''imgs''] [''txt''] (fsys demo_state) =
     Inr ([''txt'', ''a.txt''], demo_images) \<and>
   recognise demo_ocr_env (fsys demo_state) [''imgs'', ''a.png''] = None \<and>
   (\<exists>s'. ocr_loop demo_ocr_env [''imgs''] [''txt''] [[''imgs'', ''a.png'']] (demo_state, 0, 0) =
            Inr (s', 0, 1) \<and>
          read_file (fsys s') [''txt'', ''a.txt''] = None)"
proof -
  from recognition_failure_is_counted
         [OF demo_create_output_path demo_engine_raises, of "[]" 0 0]
  obtain s' where
    l: "ocr_loop demo_ocr_env [''imgs''] [''txt''] [[''imgs'', ''a.png'']] (demo_state, 0, 0) =
          ocr_loop demo_ocr_env [''imgs''] [''txt''] [] (s', 0, 0 + 1)"
    and r: "\<forall>q. read_file (fsys s') q = read_file (fsys demo_state) q"
    by blast
  have "read_file (fsys demo_state) [''txt'', ''a.txt''] = None"
    by (simp add: read_file_def demo_state_def demo_images_def)
  with r have "read_file (fsys s') [''txt'', ''a.txt''] = None" by simp
  moreover from l have
    "ocr_loop demo_ocr_env [''imgs''] [''txt''] [[''imgs'', ''a.png'']] (demo_state, 0, 0) =
       Inr (s', 0, 1)"
    by simp
  ultimately show ?thesis
    using demo_create_output_path demo_engine_raises by blast
qed

section \<open>The two counters\<close>

lemma epub_loop_sum:
  "epub_loop env out ps (s, a, b) = (s', a', b') \<Longrightarrow> a' + b' = a + b + length ps"
proof (induction ps arbitrary: s a b)
  case Nil
  then show ?case by simp
next
  case (Cons p ps)
  obtain ok s1 where pe: "process_epub env out p s = (ok, s1)" by (cases "process_epub env out p s")
  show ?case
  proof (cases ok)
    case True
    with pe Cons.prems have "epub_loop env out ps (s1, a + 1, b) = (s', a', b')" by simp
    from Cons.IH [OF this] show ?thesis by simp
  next
    case False
    with pe Cons.prems have "epub_loop env out ps (s1, a, b + 1) = (s', a', b')" by simp
    from Cons.IH [OF this] show ?thesis by simp
  qed
qed

lemma ocr_loop_step:
  "ocr_loop env ir orr (p # ps) (s, a, b) = Inr r \<Longrightarrow>
     \<exists>s1 a1 b1. ocr_loop env ir orr [p] (s, a, b) = Inr (s1, a1, b1) \<and> a1 + b1 = a + b + 1 \<and>
                 ocr_loop env ir orr ps (s1, a1, b1) = Inr r"
proof -
  assume h: "ocr_loop env ir orr (p # ps) (s, a, b) = Inr r"
  then obtain out fs' where c: "create_output_path p ir orr (fsys s) = Inr (out, fs')"
    by (cases "create_output_path p ir orr (fsys s)") auto
  obtain ok s1 where pe: "process_image env p out (s\<lparr>fsys := fs'\<rparr>) = (ok, s1)"
    by (cases "process_image env p out (s\<lparr>fsys := fs'\<rparr>)")
  show ?thesis
  proof (cases ok)
    case True
    with h c pe show ?thesis by simp
  next
    case False
    with h c pe show ?thesis by simp
  qed
qed

lemma ocr_loop_sum:
  "ocr_loop env ir orr ps (s, a, b) = Inr (s', a', b') \<Longrightarrow> a' + b' = a + b + length ps"
proof (induction ps arbitrary: s a b)
  case Nil
  then show ?case by simp
next
  case (Cons p ps)
  from ocr_loop_step [OF Cons.prems] obtain s1 a1 b1 where
    "a1 + b1 = a + b + 1" "ocr_loop env ir orr ps (s1, a1, b1) = Inr (s', a', b')"
    by blast
  with Cons.IH [of s1 a1 b1] show ?case by simp
qed

lemma ocr_loop_prefix:
  "ocr_loop env ir orr ps (s, a, b) = Inr r \<Longrightarrow>
     \<exists>u c d. ocr_loop env ir orr (take k ps) (s, a, b) = Inr (u, c, d)"
proof (induction ps arbitrary: s a b k)
  case Nil
  then show ?case by auto
next
  case (Cons p ps)
  from ocr_loop_step [OF Cons.prems] obtain s1 a1 b1 where
    one: "ocr_loop env ir orr [p] (s, a, b) = Inr (s1, a1, b1)"
    and rest: "ocr_loop env ir orr ps (s1, a1, b1) = Inr r"
    by blast
  show ?case
  proof (cases k)
    case 0
    then show ?thesis by simp
  next
    case (Suc j)
    from Cons.IH [OF rest, of j] obtain u c d where
      t: "ocr_loop env ir orr (take j ps) (s1, a1, b1) = Inr (u, c, d)" by blast
    from one obtain out fs' where c1: "create_output_path p ir orr (fsys s) = Inr (out, fs')"
      by (cases "create_output_path p ir orr (fsys s)") auto
    obtain ok s2 where pe: "process_image env p out (s\<lparr>fsys := fs'\<rparr>) = (ok, s2)"
      by (cases "process_image env p out (s\<lparr>fsys := fs'\<rparr>)")
    have "ocr_loop env ir orr (p # take j ps) (s, a, b) = Inr (u, c, d)"
      using one c1 pe t by (cases ok) auto
    with Suc show ?thesis by simp
  qed
qed

lemma demo_find_epubs:
  "find_epubs (fsys demo_library_state) [''books''] =
     [[''books'', ''jung.epub''], [''books'', ''torn.epub'']]"
  by (simp add: find_epubs_def rglob_def is_dir_def is_under_def path_name_def endswith_def
        startswith_def demo_library_state_def demo_library_def)

lemma demo_ocr_loop:
  "ocr_loop demo_ocr_env [''imgs''] [''txt''] [[''imgs'', ''a.png'']] (demo_state, 0, 0) =
     Inr (say (ErrorProcessing [''imgs'', ''a.png'']) (say (Processing [''imgs'', ''a.png'']) demo_state),
          0, 1)"
proof -
  have "demo_state\<lparr>fsys := demo_images\<rparr> = demo_state" by (simp add: demo_state_def)
  then show ?thesis
    by (simp add: demo_create_output_path process_image_engine_raises [OF demo_engine_raises])
qed

text \<open>
  C9. In the extraction loop, after any number of containers the two counters add up to
  the number of containers processed so far, and at the end to the number the scanner
  found. The OCR loop can be ended by an error of \<open>create_output_path\<close>; when it finishes,
  the same holds for it: the counters add up to the number of images, and after each image
  to the number processed so far.
\<close>

theorem counters_account_for_every_unit:
  "(\<forall>k s' a b. k \<le> length epubs \<longrightarrow>
       epub_loop env out (take k epubs) (s, 0, 0) = (s', a, b) \<longrightarrow> a + b = k) \<and>
   (\<forall>s' a b. process_all_epubs env inp out s = (s', a, b) \<longrightarrow>
       a + b = length (find_epubs (fsys s) inp)) \<and>
   (\<forall>t' a b. ocr_loop oenv ir orr images (t, 0, 0) = Inr (t', a, b) \<longrightarrow>
       a + b = length images \<and>
       (\<forall>k. k \<le> length images \<longrightarrow>
          (\<exists>u c d. ocr_loop oenv ir orr (take k images) (t, 0, 0) = Inr (u, c, d) \<and> c + d = k))) \<and>
   (\<forall>t' a b. ocr_main oenv ir orr t = Inr (t', a, b) \<longrightarrow>
       (\<exists>fs'. mkdir_parents (fsys t) orr = Inr fs' \<and> a + b = length (find_images fs' ir)))"
proof (intro conjI allI impI)
  fix k s' a b
  assume "k \<le> length epubs" "epub_loop env out (take k epubs) (s, 0, 0) = (s', a, b)"
  with epub_loop_sum [of env out "take k epubs" s 0 0 s' a b] show "a + b = k" by simp
next
  fix s' a b
  assume "process_all_epubs env inp out s = (s', a, b)"
  then show "a + b = length (find_epubs (fsys s) inp)"
    by (auto simp: process_all_epubs_def dest: epub_loop_sum)
next
  fix t' a b
  assume "ocr_loop oenv ir orr images (t, 0, 0) = Inr (t', a, b)"
  then show "a + b = length images" by (auto dest: ocr_loop_sum)
next
  fix t' a b k
  assume h: "ocr_loop oenv ir orr images (t, 0, 0) = Inr (t', a, b)" and k: "k \<le> length images"
  from ocr_loop_prefix [OF h, of k] obtain u c d where
    p: "ocr_loop oenv ir orr (take k images) (t, 0, 0) = Inr (u, c, d)" by blast
  from ocr_loop_sum [OF p] k have "c + d = k" by simp
  with p show "\<exists>u c d. ocr_loop oenv ir orr (take k images) (t, 0, 0) = Inr (u, c, d) \<and> c + d = k"
    by blast
next
  fix t' a b
  assume h: "ocr_main oenv ir orr t = Inr (t', a, b)"
  then obtain fs' where m: "mkdir_parents (fsys t) orr = Inr fs'"
    by (cases "mkdir_parents (fsys t) orr") (auto simp: ocr_main_def)
  with h have "ocr_loop oenv ir orr (find_images fs' ir) (t\<lparr>fsys := fs'\<rparr>, 0, 0) = Inr (t', a, b)"
    by (simp add: ocr_main_def)
  from ocr_loop_sum [OF this] m
  show "\<exists>fs'. mkdir_parents (fsys t) orr = Inr fs' \<and> a + b = length (find_images fs' ir)"
    by simp
qed

theorem counters_account_for_every_unit_witness:
  "length (find_epubs (fsys demo_library_state) [''books'']) = 2 \<and>
   fst (snd (process_all_epubs demo_epub_env [''books''] [''book_images''] demo_library_state)) +
   snd (snd (process_all_epubs demo_epub_env [''books''] [''book_images''] demo_library_state)) = 2 \<and>
   ocr_loop demo_ocr_env [''imgs''] [''txt''] [[''imgs'', ''a.png'']] (demo_state, 0, 0) =
     Inr (say (ErrorProcessing [''imgs'', ''a.png''])
            (say (Processing [''imgs'', ''a.png'']) demo_state), 0, 1) \<and>
   (0::nat) + 1 = length [[''imgs'', ''a.png'']]"
proof -
  let ?r = "process_all_epubs demo_epub_env [''books''] [''book_images''] demo_library_state"
  note t = counters_account_for_every_unit
             [where epubs = "[]" and env = demo_epub_env and out = "[''book_images'']"
                and s = demo_library_state and inp = "[''books'']" and oenv = demo_ocr_env
                and ir = "[''imgs'']" and orr = "[''txt'']"
                and images = "[[''imgs'', ''a.png'']]" and t = demo_state]
  have "?r = (fst ?r, fst (snd ?r), snd (snd ?r))" by simp
  with t have "fst (snd ?r) + snd (snd ?r) = length (find_epubs (fsys demo_library_state) [''books''])"
    by blast
  moreover from t demo_ocr_loop have "(0::nat) + 1 = length [[''imgs'', ''a.png'']]"
    by blast
  ultimately show ?thesis using demo_ocr_loop by (simp add: demo_find_epubs)
qed

section \<open>Directories are never lost\<close>

lemma write_file_is_dir:
  assumes "write_file fs p d = Inr fs'"
  shows "is_dir fs' q = is_dir fs q"
proof -
  from assms have fs': "fs' = AList.update p (File d) fs" and n: "\<not> is_dir fs p"
    by (auto simp: write_file_def split: if_splits)
  show ?thesis using n by (auto simp: fs' is_dir_def update_conv')
qed

lemma save_image_is_dir: "is_dir (fsys (save_image env data p ident s)) q = is_dir (fsys s) q"
  by (auto simp: save_image_def fsys_say write_file_is_dir split: content.splits option.splits sum.splits)

lemma resolve_src_is_dir: "is_dir (fsys (resolve_src env out src ims s)) q = is_dir (fsys s) q"
  by (induction ims arbitrary: s) (simp_all add: save_image_is_dir)

lemma extract_from_images_is_dir:
  "is_dir (fsys (extract_from_images env b out images s)) q = is_dir (fsys s) q"
  by (induction env b out images s rule: extract_from_images.induct)
     (simp_all add: resolve_src_is_dir)

lemma extract_images_from_item_is_dir:
  "is_dir (fsys (extract_images_from_item env it b out s)) q = is_dir (fsys s) q"
  by (simp add: extract_images_from_item_def extract_direct_def Let_def fsys_say
        save_image_is_dir extract_from_images_is_dir split: content.splits option.splits)

lemma foldl_extract_is_dir:
  "is_dir (fsys (foldl (\<lambda>st it. extract_images_from_item env it b out st) s its)) q = is_dir (fsys s) q"
  by (induction its arbitrary: s) (simp_all add: extract_images_from_item_is_dir)

lemma os_mkdir_is_dir: "os_mkdir fs p = Inr fs' \<Longrightarrow> is_dir fs' p"
  by (auto simp: os_mkdir_def is_dir_def exists_def map_add_def split: if_splits)

lemma mkdir_is_dir:
  assumes "mkdir fs p = Inr fs'"
  shows "is_dir fs' p"
proof (cases "os_mkdir fs p")
  case (Inr a)
  with assms have "fs' = a" by (simp add: mkdir_def)
  with Inr show ?thesis by (simp add: os_mkdir_is_dir)
next
  case (Inl e)
  with assms show ?thesis by (cases e) (auto simp: mkdir_def split: if_splits)
qed

lemma demo_stem: "path_stem [''books'', ''torn.epub''] = ''torn''"
  by (simp add: path_stem_def path_name_def name_stem_def name_suffix_def)

lemma demo_folder: "joinpath [''book_images''] ''torn'' = [''book_images'', ''torn'']"
  by (simp add: joinpath_def parse_parts_def startswith_def)

lemma demo_mkdir:
  "mkdir (fsys demo_library_state) [''book_images'', ''torn''] =
     Inr (demo_library @ [([''book_images'', ''torn''], Dir)])"
  by (simp add: mkdir_def os_mkdir_def exists_def is_dir_def demo_library_state_def demo_library_def)

lemma demo_read_fails:
  "read_epub demo_epub_env (demo_library @ [([''book_images'', ''torn''], Dir)]) [''books'', ''torn.epub''] = None"
  by (simp add: read_epub_def read_file_def demo_epub_env_def demo_library_def)

text \<open>
  C10. \<open>process_epub\<close> makes the subfolder named by the stem before it reads the
  container. When making it succeeds, the subfolder is a directory after the call, whether
  the container was read or not; when the container cannot be read, the call returns
  \<open>False\<close> and has changed nothing but that directory. When making the subfolder fails, the
  container is not read and the call returns \<open>False\<close>.
\<close>

theorem subfolder_made_before_container_is_read:
  assumes "process_epub env output_folder epub_path s = (ok, s')"
  shows "case mkdir (fsys s) (joinpath output_folder (path_stem epub_path)) of
           Inl e \<Rightarrow> \<not> ok \<and> fsys s' = fsys s
         | Inr fs' \<Rightarrow>
             is_dir (fsys s') (joinpath output_folder (path_stem epub_path)) \<and>
             (read_epub env fs' epub_path = None \<longrightarrow> \<not> ok \<and> fsys s' = fs')"
proof (cases "mkdir (fsys s) (joinpath output_folder (path_stem epub_path))")
  case (Inl e)
  with assms show ?thesis by (auto simp: process_epub_def Let_def fsys_say)
next
  case (Inr fs')
  note m = this
  then have d: "is_dir fs' (joinpath output_folder (path_stem epub_path))" by (rule mkdir_is_dir)
  show ?thesis
  proof (cases "read_epub env fs' epub_path")
    case None
    with assms m d show ?thesis by (auto simp: process_epub_def Let_def fsys_say)
  next
    case (Some bk)
    with assms m have
      "s' = foldl (\<lambda>st it. extract_images_from_item env it bk (joinpath output_folder (path_stem epub_path)) st)
              (s\<lparr>fsys := fs'\<rparr>) (get_items bk)"
      by (auto simp: process_epub_def Let_def)
    with d have "is_dir (fsys s') (joinpath output_folder (path_stem epub_path))"
      by (simp add: foldl_extract_is_dir)
    with m Some show ?thesis by simp
  qed
qed

theorem subfolder_made_before_container_is_read_witness:
  "mkdir (fsys demo_library_state) [''book_images'', ''torn''] =
     Inr (demo_library @ [([''book_images'', ''torn''], Dir)]) \<and>
   read_epub demo_epub_env (demo_library @ [([''book_images'', ''torn''], Dir)])
     [''books'', ''torn.epub''] = None \<and>
   \<not> fst (process_epub demo_epub_env [''book_images''] [''books'', ''torn.epub''] demo_library_state) \<and>
   is_dir (fsys (snd (process_epub demo_epub_env [''book_images''] [''books'', ''torn.epub'']
                        demo_library_state)))
     [''book_images'', ''torn'']"
proof -
  let ?r = "process_epub demo_epub_env [''book_images''] [''books'', ''torn.epub''] demo_library_state"
  have "?r = (fst ?r, snd ?r)" by simp
  from subfolder_made_before_container_is_read [OF this]
  show ?thesis
    using demo_mkdir demo_read_fails
    by (simp add: demo_stem demo_folder is_dir_def demo_library_def)
qed

section \<open>The scanners\<close>

lemma demo_missing: "\<not> is_dir (fsys demo_library_state) [''missing'']"
  by (simp add: is_dir_def demo_library_state_def demo_library_def)

lemma demo_books: "is_dir (fsys demo_library_state) [''books'']"
  by (simp add: is_dir_def demo_library_state_def demo_library_def)

text \<open>
  C3, as stated, fails: with an input root that does not exist, both runs complete with
  both counters at zero; neither ends in \<open>FileNotFoundError\<close>.
\<close>

theorem missing_root_run_completes:
  "\<not> is_dir (fsys demo_library_state) [''missing''] \<and>
   epub_main demo_epub_env [''missing''] [''book_images''] demo_library_state =
     Inr (demo_library_state, 0, 0) \<and>
   epub_main demo_epub_env [''missing''] [''book_images''] demo_library_state \<noteq>
     Inl FileNotFoundError \<and>
   ocr_main demo_ocr_env [''missing''] [''book_images''] demo_library_state =
     Inr (demo_library_state, 0, 0)"
  by (simp add: epub_main_def ocr_main_def mkdir_parents_def os_mkdir_def exists_def is_dir_def
        process_all_epubs_def find_epubs_def find_images_def rglob_def
        demo_library_state_def demo_library_def)

text \<open>
  C3, amended. The scanners never fail. When the input root is not an existing directory
  they return the empty sequence, and both loops end at once with the state unchanged and
  both counters at zero. When the root is a directory, the container scanner returns
  exactly the entries of the file system below the root whose name ends in \<open>.epub\<close>, and
  the image scanner exactly the entries below the root whose suffix, in lower case, is one
  of the image extensions; either way the result is a finite sequence.
\<close>

theorem scanner_results:
  "(\<not> is_dir (fsys s) input_root \<longrightarrow>
      find_epubs (fsys s) input_root = [] \<and>
      find_images (fsys s) input_root = [] \<and>
      process_all_epubs env input_root output_folder s = (s, 0, 0) \<and>
      ocr_loop oenv input_root output_root (find_images (fsys s) input_root) (s, 0, 0) =
        Inr (s, 0, 0)) \<and>
   (is_dir (fsys s) input_root \<longrightarrow>
      set (find_epubs (fsys s) input_root) =
        {p \<in> fst ` set (fsys s). is_under input_root p \<and> endswith (path_name p) ''.epub''} \<and>
      set (find_images (fsys s) input_root) =
        {p \<in> fst ` set (fsys s).
           is_under input_root p \<and> lower (path_suffix p) \<in> set image_extensions})"
proof (intro conjI impI)
  assume n: "\<not> is_dir (fsys s) input_root"
  then show "find_epubs (fsys s) input_root = []" by (simp add: find_epubs_def rglob_def)
  from n show e: "find_images (fsys s) input_root = []" by (simp add: find_images_def rglob_def)
  from n show "process_all_epubs env input_root output_folder s = (s, 0, 0)"
    by (simp add: process_all_epubs_def find_epubs_def rglob_def)
  show "ocr_loop oenv input_root output_root (find_images (fsys s) input_root) (s, 0, 0) =
        Inr (s, 0, 0)"
    by (simp add: e)
next
  assume d: "is_dir (fsys s) input_root"
  then show "set (find_epubs (fsys s) input_root) =
        {p \<in> fst ` set (fsys s). is_under input_root p \<and> endswith (path_name p) ''.epub''}"
    by (auto simp: find_epubs_def rglob_def)
  from d show "set (find_images (fsys s) input_root) =
        {p \<in> fst ` set (fsys s).
           is_under input_root p \<and> lower (path_suffix p) \<in> set image_extensions}"
    by (auto simp: find_images_def rglob_def)
qed

theorem scanner_results_witness:
  "is_dir (fsys demo_library_state) [''books''] \<and>
   [''books'', ''jung.epub''] \<in> set (find_epubs (fsys demo_library_state) [''books'']) \<and>
   [''books''] \<notin> set (find_epubs (fsys demo_library_state) [''books'']) \<and>
   \<not> is_dir (fsys demo_library_state) [''missing''] \<and>
   find_epubs (fsys demo_library_state) [''missing''] = [] \<and>
   process_all_epubs demo_epub_env [''missing''] [''book_images''] demo_library_state =
     (demo_library_state, 0, 0)"
proof -
  note found = scanner_results [of demo_library_state "[''books'']" demo_epub_env
                 "[''book_images'']" demo_ocr_env "[''txt'']"]
  note missing = scanner_results [of demo_library_state "[''missing'']" demo_epub_env
                   "[''book_images'']" demo_ocr_env "[''txt'']"]
  from found demo_books have
    m: "set (find_epubs (fsys demo_library_state) [''books'']) =
          {p \<in> fst ` set (fsys demo_library_state).
             is_under [''books''] p \<and> endswith (path_name p) ''.epub''}"
    by blast
  have "[''books'', ''jung.epub''] \<in> set (find_epubs (fsys demo_library_state) [''books''])"
    unfolding m
    by (simp add: demo_library_state_def demo_library_def is_under_def path_name_def
          endswith_def startswith_def)
  moreover have "[''books''] \<notin> set (find_epubs (fsys demo_library_state) [''books''])"
    unfolding m by (simp add: is_under_def)
  moreover from missing demo_missing have
    "find_epubs (fsys demo_library_state) [''missing''] = [] \<and>
     process_all_epubs demo_epub_env [''missing''] [''book_images''] demo_library_state =
       (demo_library_state, 0, 0)"
    by blast
  ultimately show ?thesis using demo_books demo_missing by simp
qed

section \<open>What the extractor writes\<close>

lemma lower_jpeg: "lower ''jpeg'' = ''jpeg''" "lower ''jpg'' = ''jpg''" "lower ''PNG'' = ''png''"
  "lower ''svg+xml'' = ''svg+xml''"
  by (simp_all add: lower_def lower_char_def)

lemma split_jpeg: "split_last CHR ''/'' ''image/jpeg'' = ''jpeg''"
  "split_last CHR ''/'' ''image/PNG'' = ''PNG''"
  "split_last CHR ''/'' ''image/svg+xml'' = ''svg+xml''"
  by (simp_all add: split_last_def)

lemma valid_jpeg: "valid_extension ''jpeg'' = ''jpeg''" "valid_extension ''PNG'' = ''PNG''"
  "valid_extension ''svg+xml'' = ''jpg''"
  by (simp_all add: valid_extension_def lower_jpeg)



lemma demo_image_items:
  "get_items_of_type demo_book ITEM_IMAGE = [thumb_item, pic_item]"
  by (simp add: get_items_of_type_def demo_book_def thumb_item_def pic_item_def page_item_def)

lemma contains_short: "contains ''pic.jpg'' ''thumbs/pic.jpg''" "contains ''pic.jpg'' ''images/pic.jpg''"
  "\<not> contains ''images/pic.jpg'' ''thumbs/pic.jpg''"
  by (simp_all add: startswith_def)

lemma demo_join:
  "joinpath [''out''] ''pic.jpeg'' = [''out'', ''pic.jpeg'']"
  "joinpath [''out''] ''thumb.jpeg'' = [''out'', ''thumb.jpeg'']"
  "joinpath [''out''] ''logo.jpg'' = [''out'', ''logo.jpg'']"
  "joinpath [''out''] ''cover.PNG'' = [''out'', ''cover.PNG'']"
  "joinpath [''book_images''] ''jung'' = [''book_images'', ''jung'']"
  by (simp_all add: joinpath_def parse_parts_def startswith_def)

lemma write_file_map_of:
  "write_file fs p d = Inr fs' \<Longrightarrow> map_of fs' = (map_of fs)(p \<mapsto> File d)"
  by (auto simp: write_file_def update_conv' split: if_splits)

lemma write_file_ok:
  "is_dir fs (butlast p) \<Longrightarrow> \<not> is_dir fs p \<Longrightarrow>
     write_file fs p d = Inr (AList.update p (File d) fs)"
  by (auto simp: write_file_def is_dir_def exists_def)

lemma write_file_keeps_files:
  assumes "write_file fs p d = Inr fs'" "is_file fs q"
  shows "is_file fs' q"
  using assms(2) by (simp add: is_file_def read_file_def write_file_map_of [OF assms(1)])

lemma save_image_keeps_files:
  assumes "is_file (fsys s) q"
  shows "is_file (fsys (save_image env data p ident s)) q"
proof (cases data)
  case NotBytes
  with assms show ?thesis by (simp add: save_image_def fsys_say)
next
  case (Bytes b)
  show ?thesis
  proof (cases "codec env b p")
    case None
    with Bytes assms show ?thesis by (simp add: save_image_def fsys_say)
  next
    case (Some w)
    show ?thesis
    proof (cases "write_file (fsys s) p w")
      case (Inl e)
      with Bytes Some assms show ?thesis by (simp add: save_image_def fsys_say)
    next
      case (Inr fs')
      from write_file_keeps_files [OF Inr assms] Bytes Some Inr show ?thesis
        by (simp add: save_image_def)
    qed
  qed
qed

lemma save_image_writes:
  assumes "codec env b p \<noteq> None" "is_dir (fsys s) (butlast p)" "\<not> is_dir (fsys s) p"
  shows "is_file (fsys (save_image env (Bytes b) p ident s)) p"
proof -
  from assms(1) obtain w where w: "codec env b p = Some w" by auto
  from write_file_ok [OF assms(2,3)]
  have "write_file (fsys s) p w = Inr (AList.update p (File w) (fsys s))" .
  then show ?thesis by (simp add: save_image_def w read_file_update is_file_def)
qed

lemma save_image_changes:
  assumes "map_of (fsys (save_image env data p ident s)) q \<noteq> map_of (fsys s) q"
  shows "q = p"
proof (cases data)
  case NotBytes
  with assms show ?thesis by (simp add: save_image_def fsys_say)
next
  case (Bytes b)
  show ?thesis
  proof (cases "codec env b p")
    case None
    with Bytes assms show ?thesis by (simp add: save_image_def fsys_say)
  next
    case (Some w)
    show ?thesis
    proof (cases "write_file (fsys s) p w")
      case (Inl e)
      with Bytes Some assms show ?thesis by (simp add: save_image_def fsys_say)
    next
      case (Inr fs')
      with Bytes Some assms have "map_of fs' q \<noteq> map_of (fsys s) q"
        by (simp add: save_image_def)
      then show ?thesis by (auto simp: write_file_map_of [OF Inr] split: if_splits)
    qed
  qed
qed

lemma resolve_src_fold:
  "resolve_src env out src ims s =
     foldl (\<lambda>st im. save_image env (item_content im) (resolved_path out im) (item_id im) st) s
       (filter (\<lambda>im. contains src (file_name im) \<and> media_type im \<noteq> ''image/svg+xml'') ims)"
  by (induction ims arbitrary: s) (simp_all add: resolved_path_def)

lemma resolve_src_step:
  "resolve_src env out src (x # xs) s =
     resolve_src env out src xs
       (if contains src (file_name x) \<and> media_type x \<noteq> ''image/svg+xml''
        then save_image env (item_content x) (resolved_path out x) (item_id x) s else s)"
  by (simp add: resolved_path_def)

lemma resolve_src_keeps_files:
  "is_file (fsys s) q \<Longrightarrow> is_file (fsys (resolve_src env out src ims s)) q"
proof (induction ims arbitrary: s)
  case Nil
  then show ?case by simp
next
  case (Cons x xs)
  show ?case
    unfolding resolve_src_step
    by (rule Cons.IH) (simp add: Cons.prems save_image_keeps_files)
qed

text \<open>
  For an id without a separator the output path is the folder followed by one component,
  the id, a dot and the extension.
\<close>

lemma slash_not_in_split_last: "CHR ''/'' \<notin> set (split_last CHR ''/'' s)"
  by (auto simp: split_last_def dest: set_takeWhileD)

lemma valid_extension_plain:
  "CHR ''/'' \<notin> set e \<Longrightarrow> valid_extension e \<noteq> [] \<and> CHR ''/'' \<notin> set (valid_extension e)"
  by (auto simp: valid_extension_def lower_def)

lemma resolved_path_plain:
  assumes "CHR ''/'' \<notin> set (item_id im)"
  shows "resolved_path out im =
           out @ [item_id im @ ''.'' @ valid_extension (split_last CHR ''/'' (media_type im))]"
proof -
  let ?e = "valid_extension (split_last CHR ''/'' (media_type im))"
  let ?nm = "item_id im @ ''.'' @ ?e"
  from valid_extension_plain [OF slash_not_in_split_last, of "media_type im"]
  have e: "?e \<noteq> []" "CHR ''/'' \<notin> set ?e" by simp_all
  from e(1) have len: "2 \<le> length ?nm" by (cases ?e) simp_all
  have "?nm \<noteq> ''.''"
  proof
    assume "?nm = ''.''"
    then have "length ?nm = length ''.''" by (rule arg_cong)
    with len show False by simp
  qed
  moreover have "CHR ''/'' \<notin> set ?nm" using assms e(2) by simp
  moreover have "?nm \<noteq> []" by simp
  ultimately have "joinpath out ?nm = out @ [?nm]" by (intro joinpath_single)
  then show ?thesis by (simp add: resolved_path_def output_file_def)
qed

lemma resolve_src_writes:
  assumes "im \<in> set ims" "contains src (file_name im)" "media_type im \<noteq> ''image/svg+xml''"
    and "item_content im = Bytes b" "codec env b (resolved_path out im) \<noteq> None"
    and "is_dir (fsys s) (butlast (resolved_path out im))"
    and "\<not> is_dir (fsys s) (resolved_path out im)"
  shows "is_file (fsys (resolve_src env out src ims s)) (resolved_path out im)"
  using assms(1,6,7)
proof (induction ims arbitrary: s)
  case Nil
  then show ?case by simp
next
  case (Cons x xs)
  let ?sx = "save_image env (item_content x) (resolved_path out x) (item_id x) s"
  let ?s1 = "if contains src (file_name x) \<and> media_type x \<noteq> ''image/svg+xml'' then ?sx else s"
  have d: "is_dir (fsys ?s1) (butlast (resolved_path out im))"
    "\<not> is_dir (fsys ?s1) (resolved_path out im)"
    using Cons.prems(2,3) by (simp_all add: save_image_is_dir)
  show ?case
  proof (cases "x = im")
    case True
    have "is_file (fsys ?sx) (resolved_path out im)"
      using True assms(4,5) Cons.prems(2,3)
      by (simp add: save_image_writes)
    with True assms(2,3) have "is_file (fsys ?s1) (resolved_path out im)" by simp
    then show ?thesis unfolding resolve_src_step by (rule resolve_src_keeps_files)
  next
    case False
    with Cons.prems have in_xs: "im \<in> set xs" by simp
    show ?thesis unfolding resolve_src_step by (rule Cons.IH [OF in_xs d])
  qed
qed

lemma resolve_src_changes:
  "map_of (fsys (resolve_src env out src ims s)) q \<noteq> map_of (fsys s) q \<Longrightarrow>
     \<exists>im \<in> set ims. q = resolved_path out im"
proof (induction ims arbitrary: s)
  case Nil
  then show ?case by simp
next
  case (Cons x xs)
  let ?sx = "save_image env (item_content x) (resolved_path out x) (item_id x) s"
  let ?s1 = "if contains src (file_name x) \<and> media_type x \<noteq> ''image/svg+xml'' then ?sx else s"
  from Cons.prems have ne: "map_of (fsys (resolve_src env out src xs ?s1)) q \<noteq> map_of (fsys s) q"
    unfolding resolve_src_step .
  show ?case
  proof (cases "map_of (fsys ?s1) q = map_of (fsys s) q")
    case True
    with ne have "map_of (fsys (resolve_src env out src xs ?s1)) q \<noteq> map_of (fsys ?s1) q"
      by simp
    from Cons.IH [OF this] show ?thesis by auto
  next
    case False
    then have "map_of (fsys ?sx) q \<noteq> map_of (fsys s) q" by (auto split: if_splits)
    then have "q = resolved_path out x" by (rule save_image_changes)
    then show ?thesis by simp
  qed
qed

text \<open>One round of the loop over the img elements, as a state transformer.\<close>

lemma extract_from_images_step:
  "extract_from_images env bk out (x # images) s =
     extract_from_images env bk out images
       (case x of
          None \<Rightarrow> s
        | Some src \<Rightarrow>
            if src = [] \<or> startswith src ''http'' then s
            else resolve_src env out (clean_src src) (get_items_of_type bk ITEM_IMAGE) s)"
  by (cases x) simp_all


lemma extract_from_images_changes:
  "map_of (fsys (extract_from_images env bk out images s)) q \<noteq> map_of (fsys s) q \<Longrightarrow>
     \<exists>im \<in> set (get_items_of_type bk ITEM_IMAGE). q = resolved_path out im"
proof (induction images arbitrary: s)
  case Nil
  then show ?case by simp
next
  case (Cons x xs)
  let ?s1 = "case x of None \<Rightarrow> s
        | Some src \<Rightarrow>
            if src = [] \<or> startswith src ''http'' then s
            else resolve_src env out (clean_src src) (get_items_of_type bk ITEM_IMAGE) s"
  from Cons.prems have ne: "map_of (fsys (extract_from_images env bk out xs ?s1)) q \<noteq> map_of (fsys s) q"
    unfolding extract_from_images_step .
  show ?case
  proof (cases "map_of (fsys ?s1) q = map_of (fsys s) q")
    case True
    with ne have "map_of (fsys (extract_from_images env bk out xs ?s1)) q \<noteq> map_of (fsys ?s1) q"
      by simp
    then show ?thesis by (rule Cons.IH)
  next
    case False
    then obtain src where
      "map_of (fsys (resolve_src env out (clean_src src) (get_items_of_type bk ITEM_IMAGE) s)) q
         \<noteq> map_of (fsys s) q"
      by (auto split: option.splits if_splits)
    then show ?thesis by (rule resolve_src_changes)
  qed
qed


lemma demo_resolved_paths:
  "resolved_path [''out''] pic_item = [''out'', ''pic.jpeg'']"
  "resolved_path [''out''] thumb_item = [''out'', ''thumb.jpeg'']"
  by (simp_all add: resolved_path_def output_file_def pic_item_def thumb_item_def split_jpeg
        valid_jpeg demo_join)


lemma lower_valid_extension:
  "lower (valid_extension e) \<in> set [''jpeg'', ''jpg'', ''png'', ''gif'']"
  by (simp add: valid_extension_def lower_jpeg)

lemma extract_images_from_item_changes:
  assumes "map_of (fsys (extract_images_from_item env it bk out s)) q \<noteq> map_of (fsys s) q"
  shows "\<exists>i. (i = it \<or> i \<in> set (get_items_of_type bk ITEM_IMAGE)) \<and> q = resolved_path out i"
proof (cases "item_content it")
  case NotBytes
  with assms show ?thesis by (simp add: extract_images_from_item_def)
next
  case (Bytes b)
  show ?thesis
  proof (cases "startswith (media_type it) ''image/''")
    case True
    with Bytes assms have
      "map_of (fsys (extract_direct env it out s)) q \<noteq> map_of (fsys s) q"
      by (simp add: extract_images_from_item_def)
    then have "map_of (fsys (save_image env (item_content it) (resolved_path out it) (item_id it) s)) q
                 \<noteq> map_of (fsys s) q"
      by (simp add: extract_direct_def Let_def resolved_path_def split: if_splits)
    then have "q = resolved_path out it" by (rule save_image_changes)
    then show ?thesis by blast
  next
    case False
    note not_image = this
    show ?thesis
    proof (cases "media_type it = ''application/xhtml+xml''")
      case False
      with not_image Bytes assms show ?thesis by (simp add: extract_images_from_item_def)
    next
      case True
      show ?thesis
      proof (cases "find_all_img env b")
        case None
        with True not_image Bytes assms show ?thesis
          by (simp add: extract_images_from_item_def fsys_say)
      next
        case (Some images)
        with True not_image Bytes assms have
          "map_of (fsys (extract_from_images env bk out images s)) q \<noteq> map_of (fsys s) q"
          by (simp add: extract_images_from_item_def)
        from extract_from_images_changes [OF this] show ?thesis by blast
      qed
    qed
  qed
qed






subsection \<open>SVG items\<close>

text \<open>
  C2. The direct branch compares the part of the media type after the slash with
  \<open>svg\<close>; for the media type \<open>image/svg+xml\<close> that part is \<open>svg+xml\<close>, the test fails,
  and the item goes on to the codec. With a payload the codec accepts, a file with the
  extension \<open>jpg\<close> is written for the SVG item.
\<close>

theorem svg_direct_item_is_written:
  "media_type svg_item = ''image/svg+xml'' \<and>
   read_file (fsys empty_folder_state) [''out'', ''logo.jpg''] = None \<and>
   read_file (fsys (extract_images_from_item demo_epub_env svg_item demo_book [''out'']
                      empty_folder_state))
     [''out'', ''logo.jpg''] = Some ''PNGDATA''"
  by (simp add: extract_images_from_item_def extract_direct_def svg_item_def startswith_def
        split_jpeg lower_jpeg valid_jpeg save_image_def demo_epub_env_def output_file_def demo_join
        write_file_def is_dir_def exists_def empty_folder_state_def read_file_def Let_def)

subsection \<open>Every match of a src\<close>

text \<open>
  C1, as stated, fails: for the one \<open>src\<close> of the page, the image items of the book are
  \<open>thumb\<close> and \<open>pic\<close> in this order, both file names contain the \<open>src\<close>, and both files are
  written.
\<close>

theorem both_matches_are_written:
  "find_all_img demo_epub_env ''<img src=pic.jpg>'' = Some [Some ''pic.jpg''] \<and>
   get_items_of_type demo_book ITEM_IMAGE = [thumb_item, pic_item] \<and>
   contains (clean_src ''pic.jpg'') (file_name thumb_item) \<and>
   contains (clean_src ''pic.jpg'') (file_name pic_item) \<and>
   read_file (fsys empty_folder_state) [''out'', ''pic.jpeg''] = None \<and>
   read_file (fsys (extract_images_from_item demo_epub_env short_src_page demo_book [''out'']
                      empty_folder_state))
     [''out'', ''thumb.jpeg''] = Some ''JFIF-small'' \<and>
   read_file (fsys (extract_images_from_item demo_epub_env short_src_page demo_book [''out'']
                      empty_folder_state))
     [''out'', ''pic.jpeg''] = Some ''JFIF''"
  by (simp add: extract_images_from_item_def short_src_page_def startswith_def demo_image_items
        clean_src_def lstrip_def thumb_item_def pic_item_def contains_short
        split_jpeg valid_jpeg save_image_def demo_epub_env_def output_file_def demo_join
        write_file_def is_dir_def exists_def empty_folder_state_def read_file_def)

text \<open>
  C1, amended. The loop over the image items has no early exit: it saves, in item order,
  every image item whose file name contains the cleaned \<open>src\<close> and whose media type is not
  \<open>image/svg+xml\<close>. After the loop the file of each such item exists at its output path,
  when its payload decodes, the parent of the output path is a directory and no directory
  stands at the output path. For an item whose id holds no path separator the output path is
  the file named by the id, a dot and the extension, directly in the output folder.
\<close>

theorem every_matching_image_is_saved:
  assumes "im \<in> set ims" "contains src (file_name im)" "media_type im \<noteq> ''image/svg+xml''"
    and "item_content im = Bytes b" "codec env b (resolved_path out im) \<noteq> None"
    and "is_dir (fsys s) (butlast (resolved_path out im))"
    and "\<not> is_dir (fsys s) (resolved_path out im)"
  shows "is_file (fsys (resolve_src env out src ims s)) (resolved_path out im) \<and>
         (CHR ''/'' \<notin> set (item_id im) \<longrightarrow>
            resolved_path out im =
              out @ [item_id im @ ''.'' @ valid_extension (split_last CHR ''/'' (media_type im))]) \<and>
         resolve_src env out src ims s =
           foldl (\<lambda>st im. save_image env (item_content im) (resolved_path out im) (item_id im) st) s
             (filter (\<lambda>im. contains src (file_name im) \<and> media_type im \<noteq> ''image/svg+xml'') ims)"
  using resolve_src_writes [OF assms] resolve_src_fold [of env out src ims s]
    resolved_path_plain [of im out]
  by simp

theorem every_matching_image_is_saved_witness:
  "pic_item \<in> set [thumb_item, pic_item] \<and>
   contains ''pic.jpg'' (file_name thumb_item) \<and>
   contains ''pic.jpg'' (file_name pic_item) \<and>
   is_dir (fsys empty_folder_state) (butlast (resolved_path [''out''] pic_item)) \<and>
   resolved_path [''out''] pic_item = [''out'', ''pic.jpeg''] \<and>
   is_file (fsys (resolve_src demo_epub_env [''out''] ''pic.jpg'' [thumb_item, pic_item]
                    empty_folder_state))
     [''out'', ''pic.jpeg'']"
proof -
  have a: "pic_item \<in> set [thumb_item, pic_item]" by simp
  have b: "contains ''pic.jpg'' (file_name pic_item)"
    by (simp add: pic_item_def startswith_def)
  have b': "contains ''pic.jpg'' (file_name thumb_item)"
    by (simp add: thumb_item_def startswith_def)
  have c: "media_type pic_item \<noteq> ''image/svg+xml''" by (simp add: pic_item_def)
  have d: "item_content pic_item = Bytes ''JFIF''" by (simp add: pic_item_def)
  have e: "codec demo_epub_env ''JFIF'' (resolved_path [''out''] pic_item) \<noteq> None"
    by (simp add: demo_epub_env_def)
  have f: "is_dir (fsys empty_folder_state) (butlast (resolved_path [''out''] pic_item))"
    by (simp add: is_dir_def empty_folder_state_def demo_resolved_paths)
  have g: "\<not> is_dir (fsys empty_folder_state) (resolved_path [''out''] pic_item)"
    by (simp add: is_dir_def empty_folder_state_def demo_resolved_paths)
  from every_matching_image_is_saved [OF a b c d e f g]
  have "is_file (fsys (resolve_src demo_epub_env [''out''] ''pic.jpg'' [thumb_item, pic_item]
                    empty_folder_state))
          (resolved_path [''out''] pic_item)"
    by (rule conjunct1)
  then have "is_file (fsys (resolve_src demo_epub_env [''out''] ''pic.jpg'' [thumb_item, pic_item]
                    empty_folder_state))
          [''out'', ''pic.jpeg'']"
    by (simp only: demo_resolved_paths)
  with a b' b f demo_resolved_paths(1) show ?thesis by (intro conjI)
qed

subsection \<open>The scenario with a relative src\<close>







subsection \<open>Names and extensions\<close>

text \<open>
  C8, as stated, fails: the test on the extension is made on its lower-case form, and the
  extension is then used as the media type spells it. For the media type \<open>image/PNG\<close> the
  file gets the extension \<open>PNG\<close>, which is none of jpeg, jpg, png and gif.
\<close>

theorem uppercase_extension_is_kept:
  "read_file (fsys (extract_images_from_item demo_epub_env upper_item demo_book [''out'']
                      empty_folder_state))
     [''out'', ''cover.PNG''] = Some ''PNGDATA'' \<and>
   ''PNG'' \<notin> set [''jpeg'', ''jpg'', ''png'', ''gif'']"
  by (simp add: extract_images_from_item_def extract_direct_def upper_item_def startswith_def
        split_jpeg lower_jpeg valid_jpeg save_image_def demo_epub_env_def output_file_def demo_join
        write_file_def is_dir_def exists_def empty_folder_state_def read_file_def Let_def)

text \<open>
  C8, amended. Every path that the extractor creates or changes for an item is the
  output folder joined with a name that consists of the id of an item (the item itself or
  an image item of the book), a dot, and an extension; for an id without a path separator
  that is the file of this name directly in the output folder. The extension is the part
  of the media type after the last slash, as spelled, when its lower-case form is one of
  jpeg, jpg, png and gif, and \<open>jpg\<close> otherwise; so its lower-case form is always one of the
  four.
\<close>

theorem written_name_and_extension:
  assumes "map_of (fsys (extract_images_from_item env it bk out s)) q \<noteq> map_of (fsys s) q"
  shows "\<exists>i ext. (i = it \<or> i \<in> set (get_items_of_type bk ITEM_IMAGE)) \<and>
           q = joinpath out (item_id i @ ''.'' @ ext) \<and>
           (CHR ''/'' \<notin> set (item_id i) \<longrightarrow> q = out @ [item_id i @ ''.'' @ ext]) \<and>
           ext = (if lower (split_last CHR ''/'' (media_type i)) \<in> set [''jpeg'', ''jpg'', ''png'', ''gif'']
                  then split_last CHR ''/'' (media_type i) else ''jpg'') \<and>
           lower ext \<in> set [''jpeg'', ''jpg'', ''png'', ''gif'']"
proof -
  from extract_images_from_item_changes [OF assms] obtain i where
    i: "i = it \<or> i \<in> set (get_items_of_type bk ITEM_IMAGE)" and q: "q = resolved_path out i"
    by blast
  let ?ext = "valid_extension (split_last CHR ''/'' (media_type i))"
  have "q = joinpath out (item_id i @ ''.'' @ ?ext)"
    by (simp add: q resolved_path_def output_file_def)
  moreover have "CHR ''/'' \<notin> set (item_id i) \<longrightarrow> q = out @ [item_id i @ ''.'' @ ?ext]"
    by (simp add: q resolved_path_plain)
  moreover have "?ext = (if lower (split_last CHR ''/'' (media_type i)) \<in> set [''jpeg'', ''jpg'', ''png'', ''gif'']
                  then split_last CHR ''/'' (media_type i) else ''jpg'')"
    by (simp add: valid_extension_def)
  moreover have "lower ?ext \<in> set [''jpeg'', ''jpg'', ''png'', ''gif'']"
    by (rule lower_valid_extension)
  ultimately show ?thesis using i by blast
qed

theorem written_name_and_extension_witness:
  "map_of (fsys (extract_images_from_item demo_epub_env upper_item demo_book [''out'']
                   empty_folder_state))
     [''out'', ''cover.PNG''] \<noteq>
   map_of (fsys empty_folder_state) [''out'', ''cover.PNG''] \<and>
   (\<exists>(i::item) ext. [''out'', ''cover.PNG''] = joinpath [''out''] (item_id i @ ''.'' @ ext) \<and>
      lower ext \<in> set [''jpeg'', ''jpg'', ''png'', ''gif''])"
proof -
  have h: "map_of (fsys (extract_images_from_item demo_epub_env upper_item demo_book [''out'']
                   empty_folder_state))
     [''out'', ''cover.PNG''] \<noteq>
   map_of (fsys empty_folder_state) [''out'', ''cover.PNG'']"
    by (simp add: extract_images_from_item_def extract_direct_def upper_item_def startswith_def
        split_jpeg lower_jpeg valid_jpeg save_image_def demo_epub_env_def output_file_def demo_join
        write_file_def is_dir_def exists_def empty_folder_state_def Let_def)
  from written_name_and_extension [OF h] h show ?thesis by blast
qed

end
